theory Spec2Isabelle
  imports Main
begin

section \<open>Feature extraction for negation-cue detection\<close>

text \<open>
  A shallow embedding of \<^verbatim>\<open>src/code/feature_extraction.py\<close>. A Python string is a
  \<^typ>\<open>string\<close>, one \<^typ>\<open>char\<close> per character (a code point below 256); a Python list and a pandas column are
  lists; a Python set that is only iterated is the list of its members in iteration
  order; a set that is only tested for membership is a \<^typ>\<open>string set\<close>. Reading and
  writing the tab-separated files is outside the embedding: a table is the list of its
  rows.
\<close>

subsection \<open>Python values and string operations\<close>

datatype error = IndexError | ValueError

text \<open>
  The cells \<^verbatim>\<open>has_affix_val\<close> and \<^verbatim>\<open>base_is_word_val\<close> hold the empty string on a
  blank row and the integers 0 or 1 elsewhere.
\<close>

datatype pyval = PyStr string | PyInt int

fun truthy :: "pyval \<Rightarrow> bool" where
  "truthy (PyStr s) = (s \<noteq> [])"
| "truthy (PyInt n) = (n \<noteq> 0)"

text \<open>\<^verbatim>\<open>xs[i]\<close> and \<^verbatim>\<open>xs[i] = v\<close>: an index below zero counts from the end, an index
  out of range raises.\<close>

definition getitem :: "'a list \<Rightarrow> int \<Rightarrow> error + 'a" where
  "getitem xs i =
     (if 0 \<le> i \<and> i < int (length xs) then Inr (xs ! nat i)
      else if i < 0 \<and> 0 \<le> int (length xs) + i then Inr (xs ! nat (int (length xs) + i))
      else Inl IndexError)"

definition setitem :: "'a list \<Rightarrow> int \<Rightarrow> 'a \<Rightarrow> error + 'a list" where
  "setitem xs i v =
     (if 0 \<le> i \<and> i < int (length xs) then Inr (xs[nat i := v])
      else if i < 0 \<and> 0 \<le> int (length xs) + i then Inr (xs[nat (int (length xs) + i) := v])
      else Inl IndexError)"

definition startswith :: "string \<Rightarrow> string \<Rightarrow> bool" where
  "startswith s p = (take (length p) s = p)"

definition endswith :: "string \<Rightarrow> string \<Rightarrow> bool" where
  "endswith s p = (length p \<le> length s \<and> drop (length s - length p) s = p)"

text \<open>
  \<^verbatim>\<open>s.replace(old, new, count)\<close>: the occurrences of \<^verbatim>\<open>old\<close> are found from the left
  and do not overlap; at most \<^verbatim>\<open>count\<close> of them are replaced, all of them when
  \<^verbatim>\<open>count\<close> is negative (the default is -1). An empty \<^verbatim>\<open>old\<close> matches before every
  character and at the end.
\<close>

function replace :: "string \<Rightarrow> string \<Rightarrow> string \<Rightarrow> int \<Rightarrow> string" where
  "replace s old new count =
     (if count = 0 then s
      else if old = [] then
        (case s of [] \<Rightarrow> new | c # cs \<Rightarrow> new @ c # replace cs old new (count - 1))
      else if s = [] then []
      else if startswith s old then new @ replace (drop (length old) s) old new (count - 1)
      else hd s # replace (tl s) old new count)"
  by pat_completeness auto
termination
  by (relation "measure (\<lambda>(s, old, new, count). length s)") auto

declare replace.simps [simp del]

text \<open>
  The stem as the specification words it: the lemma without the one trailing occurrence
  of the suffix it ends with. The code's stem is \<^verbatim>\<open>lemma.replace(suffix, "")\<close>; the two
  are compared below.
\<close>

definition residual_stem :: "string \<Rightarrow> string \<Rightarrow> string" where
  "residual_stem lem s = take (length lem - length s) lem"

text \<open>The suffix has no occurrence in the lemma that starts before the trailing one. (An
  empty suffix is removed nowhere, so there is nothing to ask of it.)\<close>

definition suffix_only_at_end :: "string \<Rightarrow> string \<Rightarrow> bool" where
  "suffix_only_at_end lem s =
     (s = [] \<or> list_all (\<lambda>i. \<not> startswith (drop i lem) s) [0..<length lem - length s])"

text \<open>
  \<^verbatim>\<open>x.lower()\<close> follows the Unicode case tables. On code points below 256 it acts on
  each character by itself: the upper-case letters are the codes 65 to 90 (\<^verbatim>\<open>A\<close> to
  \<^verbatim>\<open>Z\<close>), 192 to 214 and 216 to 222 (the accented capitals of Latin-1; 215 is the
  multiplication sign), each of them has its lower-case letter 32 codes further, and every
  other character is kept.
\<close>

definition lower_char :: "char \<Rightarrow> char" where
  "lower_char c =
     (if (65 \<le> (of_char c :: nat) \<and> (of_char c :: nat) \<le> 90)
         \<or> (192 \<le> (of_char c :: nat) \<and> (of_char c :: nat) \<le> 214)
         \<or> (216 \<le> (of_char c :: nat) \<and> (of_char c :: nat) \<le> 222)
      then char_of ((of_char c :: nat) + 32) else c)"

definition str_lower :: "string \<Rightarrow> string" where
  "str_lower x = map lower_char x"

text \<open>The letters \<^verbatim>\<open>A\<close> to \<^verbatim>\<open>Z\<close> (Python's \<^verbatim>\<open>string.ascii_uppercase\<close>).\<close>

definition ascii_uppercase :: string where
  "ascii_uppercase = ''ABCDEFGHIJKLMNOPQRSTUVWXYZ''"

subsection \<open>\<^verbatim>\<open>generate_pos_category\<close>\<close>

definition adj :: "string list" where
  "adj = [''JJ'', ''JJR'', ''JJS'']"

definition nn :: "string list" where
  "nn = [''NN'', ''NNS'', ''NNP'', ''NNPS'']"

definition adv :: "string list" where
  "adv = [''RB'', ''RBR'', ''RBS'']"

definition vb :: "string list" where
  "vb = [''VB'', ''VBD'', ''VBG'', ''VBN'', ''VBP'', ''VBZ'']"

definition pro :: "string list" where
  "pro = [''PRP'', ''PRP$'']"

text \<open>\<^verbatim>\<open>string.punctuation\<close>, the 32 ASCII punctuation characters in code order.\<close>

definition punctuation :: string where
  "punctuation =
     [CHR ''!'', CHR 0x22, CHR ''#'', CHR ''$'', CHR ''%'', CHR ''&'', CHR 0x27, CHR ''('',
      CHR '')'', CHR ''*'', CHR ''+'', CHR '','', CHR ''-'', CHR ''.'', CHR ''/'', CHR '':'',
      CHR '';'', CHR ''<'', CHR ''='', CHR ''>'', CHR ''?'', CHR ''@'', CHR ''['', CHR 0x5C,
      CHR '']'', CHR ''^'', CHR ''_'', CHR 0x60, CHR ''{'', CHR ''|'', CHR ''}'', CHR ''~'']"

text \<open>The \<^verbatim>\<open>if\<close>/\<^verbatim>\<open>elif\<close> chain of the loop body: the category appended for one tag.\<close>

definition pos_category_of :: "string \<Rightarrow> string" where
  "pos_category_of pos_tag =
     (if pos_tag = [] then []
      else if pos_tag \<in> set adj then ''ADJ''
      else if pos_tag \<in> set nn then ''NN''
      else if pos_tag \<in> set adv then ''ADV''
      else if pos_tag \<in> set pro then ''PRO''
      else if pos_tag \<in> set vb then ''VERB''
      else if hd pos_tag \<in> set punctuation then ''PUNCT''
      else ''OTH'')"

definition generate_pos_category :: "string list \<Rightarrow> string list" where
  "generate_pos_category pos_tags =
     fold (\<lambda>pos_tag pos_list. pos_list @ [pos_category_of pos_tag]) pos_tags []"

subsection \<open>\<^verbatim>\<open>extract_previous_and_next\<close>\<close>

text \<open>The local variables of the function that live across iterations of its loop.\<close>

record extract_state =
  position_index :: int
  prev_tokens :: "string list"
  next_tokens :: "string list"
  bos_previous :: bool
  eos_next :: bool

definition previous_step :: "string list \<Rightarrow> extract_state \<Rightarrow> error + extract_state" where
  "previous_step elements s =
     (let prev_index = position_index s - 1 in
      if prev_index < 0 then Inr (s\<lparr>prev_tokens := prev_tokens s @ [''bos'']\<rparr>)
      else
        (case getitem elements prev_index of
           Inl e \<Rightarrow> Inl e
         | Inr previous_token \<Rightarrow>
             (let s1 = (if previous_token = [] then s\<lparr>bos_previous := True\<rparr> else s);
                  previous_token1 = (if previous_token = [] then ''bos'' else previous_token)
              in if bos_previous s1 then
                   (case setitem (prev_tokens s1) (position_index s1 - 1) [] of
                      Inl e \<Rightarrow> Inl e
                    | Inr patched \<Rightarrow>
                        Inr (s1\<lparr>prev_tokens := patched @ [previous_token1],
                                bos_previous := False\<rparr>))
                 else Inr (s1\<lparr>prev_tokens := prev_tokens s1 @ [previous_token1]\<rparr>))))"

definition next_step :: "string list \<Rightarrow> extract_state \<Rightarrow> error + extract_state" where
  "next_step elements s =
     (let next_index = position_index s + 1 in
      if eos_next s then Inr (s\<lparr>next_tokens := next_tokens s @ [[]], eos_next := False\<rparr>)
      else if next_index < int (length elements) then
        (case getitem elements next_index of
           Inl e \<Rightarrow> Inl e
         | Inr next_token \<Rightarrow>
             if next_token = []
             then Inr (s\<lparr>next_tokens := next_tokens s @ [''eos''], eos_next := True\<rparr>)
             else Inr (s\<lparr>next_tokens := next_tokens s @ [next_token]\<rparr>))
      else Inr (s\<lparr>next_tokens := next_tokens s @ [''eos'']\<rparr>))"

definition loop_body :: "string list \<Rightarrow> extract_state \<Rightarrow> error + extract_state" where
  "loop_body elements s =
     (case previous_step elements s of
        Inl e \<Rightarrow> Inl e
      | Inr s1 \<Rightarrow>
          (case next_step elements s1 of
             Inl e \<Rightarrow> Inl e
           | Inr s2 \<Rightarrow> Inr (s2\<lparr>position_index := position_index s2 + 1\<rparr>)))"

text \<open>\<^verbatim>\<open>for i in range(n)\<close> with a body that does not read \<^verbatim>\<open>i\<close>: the body runs
  \<^verbatim>\<open>n\<close> times, and an exception ends the loop.\<close>

fun for_range :: "nat \<Rightarrow> ('s \<Rightarrow> error + 's) \<Rightarrow> 's \<Rightarrow> error + 's" where
  "for_range 0 body s = Inr s"
| "for_range (Suc n) body s =
     (case body s of Inl e \<Rightarrow> Inl e | Inr s1 \<Rightarrow> for_range n body s1)"

definition initial_state :: extract_state where
  "initial_state =
     \<lparr>position_index = 0, prev_tokens = [], next_tokens = [],
      bos_previous = False, eos_next = False\<rparr>"

definition extract_previous_and_next ::
  "string list \<Rightarrow> error + (string list \<times> string list)" where
  "extract_previous_and_next elements =
     (case for_range (length elements) (loop_body elements) initial_state of
        Inl e \<Rightarrow> Inl e
      | Inr s \<Rightarrow> Inr (prev_tokens s, next_tokens s))"

subsection \<open>\<^verbatim>\<open>get_affixal_and_base_features\<close>\<close>

record affix_vals =
  has_affix_val :: pyval
  affix_val :: string
  base_is_word_val :: pyval
  base_val :: string

text \<open>The loop over \<^verbatim>\<open>neg_suffix\<close>; the \<^verbatim>\<open>break\<close> is inside the length test.\<close>

fun suffix_loop :: "string \<Rightarrow> string set \<Rightarrow> string list \<Rightarrow> affix_vals \<Rightarrow> affix_vals" where
  "suffix_loop lem vocab [] v = v"
| "suffix_loop lem vocab (suffix # rest) v =
     (if endswith lem suffix then
        (let base_lemma = replace lem suffix [] (- 1) in
         if length base_lemma > 2 then
           (let v1 = v\<lparr>has_affix_val := PyInt 1, affix_val := suffix\<rparr> in
            if base_lemma \<in> vocab
            then v1\<lparr>base_is_word_val := PyInt 1, base_val := base_lemma\<rparr>
            else v1)
         else suffix_loop lem vocab rest v)
      else suffix_loop lem vocab rest v)"

text \<open>The loop over \<^verbatim>\<open>neg_prefix\<close>; again the \<^verbatim>\<open>break\<close> is inside the length test.\<close>

fun prefix_loop :: "string \<Rightarrow> string set \<Rightarrow> string list \<Rightarrow> affix_vals \<Rightarrow> affix_vals" where
  "prefix_loop lem vocab [] v = v"
| "prefix_loop lem vocab (prefix # rest) v =
     (if startswith lem prefix then
        (let base_lemma = replace lem prefix [] 1 in
         if length base_lemma > 3 then
           (let v1 = v\<lparr>has_affix_val := PyInt 1, affix_val := prefix\<rparr> in
            if base_lemma \<in> vocab
            then v1\<lparr>base_is_word_val := PyInt 1, base_val := base_lemma\<rparr>
            else v1)
         else prefix_loop lem vocab rest v)
      else prefix_loop lem vocab rest v)"

text \<open>The four values computed for one lemma.\<close>

definition affix_features ::
  "string \<Rightarrow> string list \<Rightarrow> string list \<Rightarrow> string set \<Rightarrow> affix_vals" where
  "affix_features lem neg_prefix neg_suffix vocab =
     (if lem = [] then
        \<lparr>has_affix_val = PyStr [], affix_val = [], base_is_word_val = PyStr [], base_val = []\<rparr>
      else
        (let v0 = \<lparr>has_affix_val = PyInt 0, affix_val = [],
                   base_is_word_val = PyInt 0, base_val = []\<rparr>;
             v1 = suffix_loop lem vocab neg_suffix v0
         in if \<not> truthy (has_affix_val v1) then prefix_loop lem vocab neg_prefix v1 else v1))"

definition get_affixal_and_base_features ::
  "string list \<Rightarrow> string list \<Rightarrow> string list \<Rightarrow> string set
     \<Rightarrow> pyval list \<times> string list \<times> pyval list \<times> string list" where
  "get_affixal_and_base_features lemmas neg_prefix neg_suffix vocab =
     fold (\<lambda>lem (has_affix, affix, base_is_word, base).
             (let v = affix_features lem neg_prefix neg_suffix vocab
              in (has_affix @ [has_affix_val v], affix @ [affix_val v],
                  base_is_word @ [base_is_word_val v], base @ [base_val v])))
          lemmas ([], [], [], [])"

subsection \<open>\<^verbatim>\<open>write_features\<close>\<close>

text \<open>A row of the input table: its seven columns, in order.\<close>

record token_row =
  in_book :: string
  in_sent_num :: string
  in_token_num :: string
  in_token :: string
  in_lemma :: string
  in_pos_tag :: string
  in_label :: string

text \<open>A row of the output table: the columns of \<^verbatim>\<open>feature_names\<close>, in order.\<close>

record feature_row =
  f_book :: string
  f_sent_num :: string
  f_token_num :: string
  f_token :: string
  f_lemma :: string
  f_pos_tag :: string
  f_pos_category :: string
  f_prev_token :: string
  f_next_token :: string
  f_prev_lemma :: string
  f_next_lemma :: string
  f_has_affix :: pyval
  f_affix :: string
  f_base_is_word :: pyval
  f_base :: string
  f_gold_label :: string

text \<open>
  The table written by \<^verbatim>\<open>write_features\<close> for the table it read. The data frame takes
  its index from the columns of the input; a list column of another length raises. The
  body is written for any function \<^verbatim>\<open>lower\<close> in the place of the method \<^verbatim>\<open>x.lower()\<close>,
  which belongs to Python and not to this program; \<open>write_features\<close> is the body with
  \<^const>\<open>str_lower\<close>.
\<close>

definition write_features_with ::
  "(string \<Rightarrow> string) \<Rightarrow> token_row list \<Rightarrow> string list \<Rightarrow> string list \<Rightarrow> string set
     \<Rightarrow> error + feature_row list" where
  "write_features_with lower input_data neg_prefix neg_suffix vocab =
     (let books = map in_book input_data;
          sent_num = map in_sent_num input_data;
          token_num = map in_token_num input_data;
          tokens = map (\<lambda>r. lower (in_token r)) input_data;
          lemmas = map (\<lambda>r. lower (in_lemma r)) input_data;
          pos_tags = map in_pos_tag input_data;
          labels = map in_label input_data
      in case extract_previous_and_next tokens of
           Inl e \<Rightarrow> Inl e
         | Inr token_neighbours \<Rightarrow>
             (let pos_category = generate_pos_category pos_tags in
              case extract_previous_and_next lemmas of
                Inl e \<Rightarrow> Inl e
              | Inr lemma_neighbours \<Rightarrow>
                  (case get_affixal_and_base_features lemmas neg_prefix neg_suffix vocab of
                     (has_affix, affix, base_is_word, base) \<Rightarrow>
                       if length pos_category = length input_data
                          \<and> length (fst token_neighbours) = length input_data
                          \<and> length (snd token_neighbours) = length input_data
                          \<and> length (fst lemma_neighbours) = length input_data
                          \<and> length (snd lemma_neighbours) = length input_data
                          \<and> length has_affix = length input_data
                          \<and> length affix = length input_data
                          \<and> length base_is_word = length input_data
                          \<and> length base = length input_data
                       then
                         (let features_df =
                                map (\<lambda>i. \<lparr>f_book = books ! i,
                                          f_sent_num = sent_num ! i,
                                          f_token_num = token_num ! i,
                                          f_token = tokens ! i,
                                          f_lemma = lemmas ! i,
                                          f_pos_tag = pos_tags ! i,
                                          f_pos_category = pos_category ! i,
                                          f_prev_token = fst token_neighbours ! i,
                                          f_next_token = snd token_neighbours ! i,
                                          f_prev_lemma = fst lemma_neighbours ! i,
                                          f_next_lemma = snd lemma_neighbours ! i,
                                          f_has_affix = has_affix ! i,
                                          f_affix = affix ! i,
                                          f_base_is_word = base_is_word ! i,
                                          f_base = base ! i,
                                          f_gold_label = labels ! i\<rparr>)
                                    [0..<length input_data];
                              features_df_clean = filter (\<lambda>r. f_book r \<noteq> []) features_df
                          in Inr features_df_clean)
                       else Inl ValueError)))"

definition write_features ::
  "token_row list \<Rightarrow> string list \<Rightarrow> string list \<Rightarrow> string set \<Rightarrow> error + feature_row list" where
  "write_features input_data neg_prefix neg_suffix vocab =
     write_features_with str_lower input_data neg_prefix neg_suffix vocab"

subsection \<open>Loop invariant of the neighbour extraction\<close>

text \<open>After \<open>k\<close> iterations the position is \<open>k\<close>, both output lists have \<open>k\<close> entries and
  the flag \<^verbatim>\<open>bos_previous\<close> has been reset.\<close>

definition loop_inv :: "nat \<Rightarrow> extract_state \<Rightarrow> bool" where
  "loop_inv k s =
     (position_index s = int k \<and> length (prev_tokens s) = k \<and> length (next_tokens s) = k
      \<and> \<not> bos_previous s)"

section \<open>Properties\<close>

subsection \<open>The part-of-speech categories\<close>

lemma generate_pos_category_fold:
  "fold (\<lambda>pos_tag pos_list. pos_list @ [pos_category_of pos_tag]) pos_tags acc
     = acc @ map pos_category_of pos_tags"
  by (induction pos_tags arbitrary: acc) simp_all

lemma generate_pos_category_map:
  "generate_pos_category pos_tags = map pos_category_of pos_tags"
  by (simp add: generate_pos_category_def generate_pos_category_fold)

text \<open>
  Claim C8. The categoriser maps the empty tag to the empty string, \<^verbatim>\<open>JJ\<close> to
  \<^verbatim>\<open>ADJ\<close>, \<^verbatim>\<open>NNPS\<close> to \<^verbatim>\<open>NN\<close>, \<^verbatim>\<open>.\<close> to \<^verbatim>\<open>PUNCT\<close> and \<^verbatim>\<open>FW\<close> to \<^verbatim>\<open>OTH\<close>.
  Every tag of a column is categorised on its own, by the first test that holds in the
  order empty, adjective, noun, adverb, pronoun, verb, leading punctuation, other.
\<close>

theorem C8_pos_categories:
  "generate_pos_category ['''', ''JJ'', ''NNPS'', ''.'', ''FW'']
     = ['''', ''ADJ'', ''NN'', ''PUNCT'', ''OTH'']
   \<and> generate_pos_category pos_tags = map pos_category_of pos_tags
   \<and> pos_category_of tag =
       (if tag = [] then []
        else if tag \<in> {''JJ'', ''JJR'', ''JJS''} then ''ADJ''
        else if tag \<in> {''NN'', ''NNS'', ''NNP'', ''NNPS''} then ''NN''
        else if tag \<in> {''RB'', ''RBR'', ''RBS''} then ''ADV''
        else if tag \<in> {''PRP'', ''PRP$''} then ''PRO''
        else if tag \<in> {''VB'', ''VBD'', ''VBG'', ''VBN'', ''VBP'', ''VBZ''} then ''VERB''
        else if hd tag \<in> set punctuation then ''PUNCT''
        else ''OTH'')"
proof -
  have "generate_pos_category ['''', ''JJ'', ''NNPS'', ''.'', ''FW'']
          = ['''', ''ADJ'', ''NN'', ''PUNCT'', ''OTH'']"
    by (simp add: generate_pos_category_def pos_category_of_def adj_def nn_def adv_def vb_def
        pro_def punctuation_def)
  moreover have "generate_pos_category pos_tags = map pos_category_of pos_tags"
    by (rule generate_pos_category_map)
  moreover have "pos_category_of tag =
       (if tag = [] then []
        else if tag \<in> {''JJ'', ''JJR'', ''JJS''} then ''ADJ''
        else if tag \<in> {''NN'', ''NNS'', ''NNP'', ''NNPS''} then ''NN''
        else if tag \<in> {''RB'', ''RBR'', ''RBS''} then ''ADV''
        else if tag \<in> {''PRP'', ''PRP$''} then ''PRO''
        else if tag \<in> {''VB'', ''VBD'', ''VBG'', ''VBN'', ''VBP'', ''VBZ''} then ''VERB''
        else if hd tag \<in> set punctuation then ''PUNCT''
        else ''OTH'')"
    unfolding pos_category_of_def adj_def nn_def adv_def vb_def pro_def by simp
  ultimately show ?thesis by blast
qed

subsection \<open>The neighbour extraction\<close>

lemma previous_step_total:
  assumes "loop_inv k s" and "k \<le> length elements"
  shows "\<exists>s1. previous_step elements s = Inr s1 \<and> position_index s1 = int k
           \<and> length (prev_tokens s1) = Suc k \<and> \<not> bos_previous s1
           \<and> next_tokens s1 = next_tokens s \<and> eos_next s1 = eos_next s"
proof (cases k)
  case 0
  with assms show ?thesis
    by (simp add: previous_step_def loop_inv_def)
next
  case (Suc j)
  with assms have "getitem elements (position_index s - 1) = Inr (elements ! j)"
    by (simp add: getitem_def loop_inv_def)
  moreover from Suc assms
  have "setitem (prev_tokens s) (position_index s - 1) [] = Inr ((prev_tokens s)[j := []])"
    by (simp add: setitem_def loop_inv_def)
  ultimately show ?thesis
    using Suc assms by (simp add: previous_step_def loop_inv_def Let_def)
qed

lemma next_step_total:
  assumes "position_index s = int k" and "k < length elements"
  shows "\<exists>s2. next_step elements s = Inr s2 \<and> position_index s2 = int k
           \<and> length (next_tokens s2) = Suc (length (next_tokens s))
           \<and> prev_tokens s2 = prev_tokens s \<and> bos_previous s2 = bos_previous s"
proof (cases "Suc k < length elements")
  case True
  with assms have "getitem elements (position_index s + 1) = Inr (elements ! Suc k)"
    by (simp add: getitem_def nat_add_distrib)
  with assms show ?thesis
    by (simp add: next_step_def Let_def)
next
  case False
  with assms show ?thesis
    by (simp add: next_step_def Let_def)
qed

lemma loop_body_inv:
  assumes "loop_inv k s" and "k < length elements"
  shows "\<exists>s'. loop_body elements s = Inr s' \<and> loop_inv (Suc k) s'"
proof -
  from assms obtain s1 where s1: "previous_step elements s = Inr s1"
      "position_index s1 = int k" "length (prev_tokens s1) = Suc k" "\<not> bos_previous s1"
      "next_tokens s1 = next_tokens s"
    using previous_step_total [of k s elements] by auto
  from s1(2) assms(2) obtain s2 where s2: "next_step elements s1 = Inr s2"
      "position_index s2 = int k" "length (next_tokens s2) = Suc (length (next_tokens s1))"
      "prev_tokens s2 = prev_tokens s1" "bos_previous s2 = bos_previous s1"
    using next_step_total [of s1 k elements] by auto
  from s1 s2 assms(1) show ?thesis
    by (simp add: loop_body_def loop_inv_def)
qed

lemma for_range_inv:
  assumes "loop_inv k s" and "k + n \<le> length elements"
  shows "\<exists>s'. for_range n (loop_body elements) s = Inr s' \<and> loop_inv (k + n) s'"
  using assms
proof (induction n arbitrary: k s)
  case 0
  then show ?case by simp
next
  case (Suc n)
  then obtain s1 where s1: "loop_body elements s = Inr s1" "loop_inv (Suc k) s1"
    using loop_body_inv [of k s elements] by auto
  with Suc.IH [of "Suc k" s1] Suc.prems(2) show ?case by simp
qed

lemma loop_inv_initial: "loop_inv 0 initial_state"
  by (simp add: loop_inv_def initial_state_def)

text \<open>The last iteration of a loop, split off.\<close>

lemma for_range_snoc:
  "for_range (Suc n) body s =
     (case for_range n body s of Inl e \<Rightarrow> Inl e | Inr s1 \<Rightarrow> body s1)"
proof (induction n arbitrary: s)
  case 0
  show ?case by (simp split: sum.splits)
next
  case (Suc n)
  show ?case
  proof (cases "body s")
    case (Inl e)
    then show ?thesis by simp
  next
    case (Inr s1)
    have "for_range (Suc (Suc n)) body s = for_range (Suc n) body s1"
      using Inr by simp
    also have "\<dots> = (case for_range n body s1 of Inl e \<Rightarrow> Inl e | Inr s2 \<Rightarrow> body s2)"
      by (rule Suc.IH)
    also have "\<dots> = (case for_range (Suc n) body s of Inl e \<Rightarrow> Inl e | Inr s2 \<Rightarrow> body s2)"
      using Inr by simp
    finally show ?thesis .
  qed
qed

lemma extract_length:
  "\<exists>previous nxt. extract_previous_and_next elements = Inr (previous, nxt)
     \<and> length previous = length elements \<and> length nxt = length elements"
proof -
  obtain s where "for_range (length elements) (loop_body elements) initial_state = Inr s"
      and "loop_inv (length elements) s"
    using for_range_inv [OF loop_inv_initial, of "length elements" elements] by auto
  then show ?thesis
    by (simp add: extract_previous_and_next_def loop_inv_def)
qed

lemma previous_step_literal:
  assumes "loop_inv (Suc k) s" and "k < length elements" and "elements ! k \<noteq> []"
  shows "previous_step elements s = Inr (s\<lparr>prev_tokens := prev_tokens s @ [elements ! k]\<rparr>)"
proof -
  from assms have "getitem elements (position_index s - 1) = Inr (elements ! k)"
    by (simp add: getitem_def loop_inv_def)
  with assms show ?thesis
    by (simp add: previous_step_def loop_inv_def Let_def)
qed

lemma extract_trailing_blank:
  assumes "x \<noteq> []"
  shows "\<exists>previous nxt. extract_previous_and_next (xs @ [x, []]) = Inr (previous, nxt)
           \<and> length previous = length xs + 2 \<and> previous ! (length xs + 1) = x"
proof -
  let ?es = "xs @ [x, []]"
  let ?k = "Suc (length xs)"
  obtain s where s: "for_range ?k (loop_body ?es) initial_state = Inr s" "loop_inv ?k s"
    using for_range_inv [OF loop_inv_initial, of ?k ?es] by auto
  have lit: "previous_step ?es s = Inr (s\<lparr>prev_tokens := prev_tokens s @ [x]\<rparr>)"
    using previous_step_literal [OF s(2), of ?es] assms by (simp add: nth_append)
  obtain s2 where s2: "next_step ?es (s\<lparr>prev_tokens := prev_tokens s @ [x]\<rparr>) = Inr s2"
      "prev_tokens s2 = prev_tokens s @ [x]"
    using next_step_total [of "s\<lparr>prev_tokens := prev_tokens s @ [x]\<rparr>" ?k ?es] s(2)
    by (auto simp: loop_inv_def)
  have "for_range (length ?es) (loop_body ?es) initial_state
          = Inr (s2\<lparr>position_index := position_index s2 + 1\<rparr>)"
    using s(1) lit s2(1) by (simp add: for_range_snoc loop_body_def del: for_range.simps)
  with s2(2) s(2) show ?thesis
    by (simp add: extract_previous_and_next_def loop_inv_def nth_append)
qed

text \<open>
  Claim C4. On \<^verbatim>\<open>["w1", "w2", "", "w3"]\<close> the extraction returns the previous values
  \<^verbatim>\<open>["bos", "w1", "", "bos"]\<close> and the next values \<^verbatim>\<open>["w2", "eos", "", "eos"]\<close>: the
  sentinels stand on the rows beside the blank row and at the two ends, and the blank row
  has the empty string in both lists.
\<close>

theorem C4_boundary_example:
  "extract_previous_and_next [''w1'', ''w2'', '''', ''w3'']
     = Inr ([''bos'', ''w1'', '''', ''bos''], [''w2'', ''eos'', '''', ''eos''])"
  by (simp add: extract_previous_and_next_def loop_body_def previous_step_def next_step_def
      initial_state_def getitem_def setitem_def)

text \<open>
  Claim C7. For every input list the extraction returns, without raising, a list of
  previous values and a list of next values, each as long as the input.
\<close>

theorem C7_length_preserving:
  "\<exists>previous nxt. extract_previous_and_next elements = Inr (previous, nxt)
     \<and> length previous = length elements \<and> length nxt = length elements"
  by (rule extract_length)

text \<open>
  Claim C9. When the last element of the input is the empty string and the element
  before it is not, the previous value at that last, blank position is the element before
  it and not the empty string: only a later row clears the previous value of a blank row,
  and a trailing blank row has no later row.
\<close>

theorem C9_trailing_blank_keeps_previous:
  assumes "2 \<le> length elements"
    and "last elements = []"
    and "elements ! (length elements - 2) \<noteq> []"
  shows "\<exists>previous nxt. extract_previous_and_next elements = Inr (previous, nxt)
           \<and> length previous = length elements
           \<and> previous ! (length elements - 1) = elements ! (length elements - 2)
           \<and> previous ! (length elements - 1) \<noteq> []"
proof -
  from assms(1) obtain ys y where ys: "elements = ys @ [y]"
    by (cases elements rule: rev_cases) auto
  with assms(1) obtain xs x where xs: "ys = xs @ [x]"
    by (cases ys rule: rev_cases) auto
  from ys xs assms(2) have shape: "elements = xs @ [x, []]"
    by simp
  with assms(3) have x: "x \<noteq> []"
    by (simp add: nth_append)
  from extract_trailing_blank [OF x, of xs] shape x show ?thesis
    by (auto simp: nth_append)
qed

theorem C9_trailing_blank_witness:
  "2 \<le> length [''w1'', ''w2'', ''''] \<and> last [''w1'', ''w2'', ''''] = []
   \<and> [''w1'', ''w2'', ''''] ! (length [''w1'', ''w2'', ''''] - 2) \<noteq> []
   \<and> (\<exists>previous nxt. extract_previous_and_next [''w1'', ''w2'', ''''] = Inr (previous, nxt)
        \<and> previous ! 2 = ''w2'')"
  using C9_trailing_blank_keeps_previous [of "[''w1'', ''w2'', '''']"]
  by (auto simp add: numeral_2_eq_2)

subsection \<open>The affix analysis\<close>

lemma replace_Nil: "replace [] old [] count = []"
  by (simp add: replace.simps)

lemma replace_count_0: "replace s old new 0 = s"
  by (subst replace.simps) simp

lemma replace_empty_Cons:
  "c \<noteq> 0 \<Longrightarrow> replace (x # xs) [] new c = new @ x # replace xs [] new (c - 1)"
  by (subst replace.simps) simp

lemma replace_match:
  "c \<noteq> 0 \<Longrightarrow> old \<noteq> [] \<Longrightarrow> s \<noteq> [] \<Longrightarrow> startswith s old
     \<Longrightarrow> replace s old new c = new @ replace (drop (length old) s) old new (c - 1)"
  by (subst replace.simps) simp

lemma replace_no_match:
  "c \<noteq> 0 \<Longrightarrow> old \<noteq> [] \<Longrightarrow> \<not> startswith (x # xs) old
     \<Longrightarrow> replace (x # xs) old new c = x # replace xs old new c"
  by (subst replace.simps) simp

lemma replace_empty_old: "replace s [] [] c = s"
proof (induction s arbitrary: c)
  case Nil
  show ?case by (rule replace_Nil)
next
  case (Cons x xs)
  then show ?case
    by (cases "c = 0") (simp_all add: replace_count_0 replace_empty_Cons)
qed

lemma replace_length_le: "length (replace s old [] c) \<le> length s"
proof (induction s arbitrary: c rule: length_induct)
  case (1 s)
  show ?case
  proof (cases s)
    case Nil
    then show ?thesis by (simp add: replace_Nil)
  next
    case (Cons x xs)
    show ?thesis
    proof (cases "c = 0 \<or> old = []")
      case True
      with Cons show ?thesis
        by (auto simp: replace_count_0 replace_empty_old)
    next
      case False
      show ?thesis
      proof (cases "startswith s old")
        case True
        from False Cons have "length (drop (length old) s) < length s"
          by simp
        with "1.IH" have "length (replace (drop (length old) s) old [] (c - 1))
            \<le> length (drop (length old) s)"
          by blast
        with False True Cons show ?thesis
          by (simp add: replace_match)
      next
        case nm: False
        from "1.IH" Cons have "length (replace xs old [] c) \<le> length xs"
          by simp
        with False nm Cons show ?thesis
          by (simp add: replace_no_match)
      qed
    qed
  qed
qed

lemma endswith_tl:
  assumes "endswith s old" and "\<not> startswith s old"
  shows "endswith (tl s) old"
proof -
  from assms(1) have le: "length old \<le> length s"
    and d: "drop (length s - length old) s = old"
    by (simp_all add: endswith_def)
  have "length old \<noteq> length s"
  proof
    assume "length old = length s"
    with d have "s = old" by simp
    then have "startswith s old" by (simp add: startswith_def)
    with assms(2) show False ..
  qed
  with le have lt: "length old < length s" by simp
  then obtain x xs where s: "s = x # xs" by (cases s) auto
  from lt s have "length s - length old = Suc (length xs - length old)"
    by (simp add: Suc_diff_le)
  with d s have "drop (length xs - length old) xs = old" by simp
  with lt s show ?thesis by (simp add: endswith_def)
qed

lemma replace_endswith_length:
  assumes "old \<noteq> []" and "c < 0"
  shows "endswith s old \<Longrightarrow> length (replace s old [] c) + length old \<le> length s"
proof (induction s)
  case Nil
  with assms(1) show ?case by (simp add: endswith_def)
next
  case (Cons x xs)
  from assms(2) have c: "c \<noteq> 0" by simp
  show ?case
  proof (cases "startswith (x # xs) old")
    case True
    have "length (replace (drop (length old) (x # xs)) old [] (c - 1))
        \<le> length (x # xs) - length old"
      using replace_length_le [of "drop (length old) (x # xs)" old "c - 1"] by simp
    moreover from Cons.prems have "length old \<le> length (x # xs)"
      by (simp add: endswith_def)
    ultimately show ?thesis
      using c assms(1) True by (simp add: replace_match)
  next
    case False
    from endswith_tl [OF Cons.prems False] have "endswith xs old" by simp
    from Cons.IH [OF this] c assms(1) False show ?thesis
      by (simp add: replace_no_match)
  qed
qed

text \<open>The code's stem of a lemma that ends with the suffix is never longer than the
  residual stem, and it is the residual stem when the suffix occurs only at the end.\<close>

lemma replace_stem_le:
  assumes "endswith lem p"
  shows "length (replace lem p [] (- 1)) \<le> length (residual_stem lem p)"
proof (cases "p = []")
  case True
  then show ?thesis by (simp add: replace_empty_old residual_stem_def)
next
  case False
  with assms replace_endswith_length [of p "- 1" lem] show ?thesis
    by (simp add: residual_stem_def)
qed

lemma replace_only_end:
  assumes "s \<noteq> []" and "c \<noteq> 0"
    and "\<forall>i<length xs. \<not> startswith (drop i (xs @ s)) s"
  shows "replace (xs @ s) s [] c = xs"
  using assms(3)
proof (induction xs)
  case Nil
  from assms(1,2) show ?case
    by (subst replace.simps) (simp add: startswith_def replace_Nil)
next
  case (Cons x xs)
  from Cons.prems have "\<not> startswith ((x # xs) @ s) s"
    by (auto dest: spec [of _ 0])
  moreover have "\<forall>i<length xs. \<not> startswith (drop i (xs @ s)) s"
  proof (intro allI impI)
    fix i assume "i < length xs"
    with Cons.prems have "\<not> startswith (drop (Suc i) ((x # xs) @ s)) s"
      by (auto dest: spec [of _ "Suc i"])
    then show "\<not> startswith (drop i (xs @ s)) s" by simp
  qed
  ultimately show ?case
    using assms(1,2) Cons.IH by (subst replace.simps) simp
qed

lemma replace_residual_stem:
  assumes "endswith lem s" and "suffix_only_at_end lem s"
  shows "replace lem s [] (- 1) = residual_stem lem s"
proof (cases "s = []")
  case True
  then show ?thesis by (simp add: replace_empty_old residual_stem_def)
next
  case False
  from assms(1) have split: "residual_stem lem s @ s = lem"
    by (metis append_take_drop_id endswith_def residual_stem_def)
  from assms(1) have len: "length (residual_stem lem s) = length lem - length s"
    by (simp add: residual_stem_def)
  from assms(2) False
  have "\<forall>i<length (residual_stem lem s). \<not> startswith (drop i (residual_stem lem s @ s)) s"
    by (simp add: suffix_only_at_end_def list_all_iff split len)
  from replace_only_end [OF False _ this, of "- 1"] split show ?thesis
    by simp
qed

text \<open>A suffix that the lemma does not end with, or whose stem is too short, leaves the
  values as they are and the loop goes on.\<close>

lemma suffix_loop_skip:
  assumes "\<forall>p\<in>set pre. \<not> (endswith lem p \<and> 2 < length (replace lem p [] (- 1)))"
  shows "suffix_loop lem vocab (pre @ rest) v = suffix_loop lem vocab rest v"
  using assms by (induction pre) (auto simp: Let_def)

lemma prefix_loop_skip:
  assumes "\<forall>p\<in>set pre. \<not> (startswith lem p \<and> 3 < length (replace lem p [] 1))"
  shows "prefix_loop lem vocab (pre @ rest) v = prefix_loop lem vocab rest v"
  using assms by (induction pre) (auto simp: Let_def)

lemma suffix_loop_skip_residual:
  assumes "\<forall>p\<in>set pre. \<not> (endswith lem p \<and> 2 < length (residual_stem lem p))"
  shows "suffix_loop lem vocab (pre @ rest) v = suffix_loop lem vocab rest v"
proof (rule suffix_loop_skip)
  show "\<forall>p\<in>set pre. \<not> (endswith lem p \<and> 2 < length (replace lem p [] (- 1)))"
  proof
    fix p assume "p \<in> set pre"
    with assms have "\<not> (endswith lem p \<and> 2 < length (residual_stem lem p))" by blast
    then show "\<not> (endswith lem p \<and> 2 < length (replace lem p [] (- 1)))"
      using replace_stem_le [of lem p] by auto
  qed
qed

text \<open>
  Claim C1. The claim says that the candidate stem of a lemma ending with a suffix is the
  lemma without that one trailing occurrence. The code calls \<^verbatim>\<open>lemma.replace(suffix, "")\<close>,
  which removes every occurrence: for the lemma \<^verbatim>\<open>blessingless\<close> and the suffix
  \<^verbatim>\<open>less\<close> the stem without the trailing occurrence is \<^verbatim>\<open>blessing\<close>, the code's
  stem is \<^verbatim>\<open>bing\<close>, and with \<^verbatim>\<open>blessing\<close> in the vocabulary the base is not found.
\<close>

theorem C1_replace_removes_every_occurrence:
  "endswith ''blessingless'' ''less''
   \<and> take (length ''blessingless'' - length ''less'') ''blessingless'' = ''blessing''
   \<and> replace ''blessingless'' ''less'' [] (- 1) = ''bing''
   \<and> affix_features ''blessingless'' [] [''less''] {''blessing''}
      = \<lparr>has_affix_val = PyInt 1, affix_val = ''less'', base_is_word_val = PyInt 0, base_val = []\<rparr>"
  by (simp add: affix_features_def endswith_def startswith_def replace.simps)

text \<open>
  Claim C2, as the code has it. The suffix loop leaves the loop only when it commits. A
  suffix the lemma ends with whose residual stem has length 2 or less records nothing,
  and the loop goes on to the later suffixes. The loop commits at the first suffix in
  iteration order that the lemma ends with and whose residual stem is longer than 2,
  whatever follows it in the set, when that suffix occurs in the lemma only at its end;
  when no suffix has a residual stem longer than 2 nothing is recorded. (A lemma in which
  the committing suffix occurs a second time is left out.)
\<close>

theorem C2_suffix_pass_first_qualifying:
  assumes "\<forall>p\<in>set pre. \<not> (endswith lem p \<and> 2 < length (residual_stem lem p))"
  shows "suffix_loop lem vocab pre v = v
    \<and> (endswith lem s \<and> suffix_only_at_end lem s \<and> 2 < length (residual_stem lem s) \<longrightarrow>
         suffix_loop lem vocab (pre @ s # post) v =
           (if residual_stem lem s \<in> vocab
            then v\<lparr>has_affix_val := PyInt 1, affix_val := s,
                   base_is_word_val := PyInt 1, base_val := residual_stem lem s\<rparr>
            else v\<lparr>has_affix_val := PyInt 1, affix_val := s\<rparr>))"
proof -
  have "suffix_loop lem vocab pre v = v"
    using suffix_loop_skip_residual [OF assms, of vocab "[]" v] by simp
  moreover have "suffix_loop lem vocab (pre @ s # post) v = suffix_loop lem vocab (s # post) v"
    by (rule suffix_loop_skip_residual [OF assms])
  ultimately show ?thesis
    by (simp add: Let_def replace_residual_stem)
qed

theorem C2_suffix_pass_witness:
  "endswith ''unless'' ''less'' \<and> length (residual_stem ''unless'' ''less'') \<le> 2
   \<and> endswith ''unless'' ''ss'' \<and> suffix_only_at_end ''unless'' ''ss''
   \<and> 2 < length (residual_stem ''unless'' ''ss'')
   \<and> suffix_loop ''unless'' {''unle''} ([''less''] @ ''ss'' # [''s''])
        \<lparr>has_affix_val = PyInt 0, affix_val = [], base_is_word_val = PyInt 0, base_val = []\<rparr>
      = \<lparr>has_affix_val = PyInt 1, affix_val = ''ss'', base_is_word_val = PyInt 1,
         base_val = ''unle''\<rparr>"
  using C2_suffix_pass_first_qualifying [of "[''less'']" "''unless''" "{''unle''}"
      "\<lparr>has_affix_val = PyInt 0, affix_val = [], base_is_word_val = PyInt 0, base_val = []\<rparr>"
      "''ss''" "[''s'']"]
  by (simp add: endswith_def startswith_def residual_stem_def suffix_only_at_end_def)

text \<open>
  The loop does not stop at the first suffix the lemma ends with: \<^verbatim>\<open>unless\<close> ends with
  \<^verbatim>\<open>less\<close>, the stem \<^verbatim>\<open>un\<close> is too short, and the later suffix \<^verbatim>\<open>ss\<close> is recorded.
\<close>

theorem C2_counterexample:
  "endswith ''unless'' ''less'' \<and> length (residual_stem ''unless'' ''less'') \<le> 2
   \<and> length (replace ''unless'' ''less'' [] (- 1)) \<le> 2
   \<and> suffix_loop ''unless'' {} [''less'', ''ss'']
        \<lparr>has_affix_val = PyInt 0, affix_val = [], base_is_word_val = PyInt 0, base_val = []\<rparr>
      = \<lparr>has_affix_val = PyInt 1, affix_val = ''ss'', base_is_word_val = PyInt 0, base_val = []\<rparr>"
  by (simp add: endswith_def startswith_def replace.simps residual_stem_def)

text \<open>
  Claim C3, as the code has it. The prefix loop leaves the loop only when it commits. A
  prefix the lemma starts with whose stem has length 3 or less records nothing, and the
  loop goes on to the later prefixes. The loop commits at the first prefix in iteration
  order that the lemma starts with and whose stem is longer than 3, whatever follows it;
  when no prefix is of that kind nothing is recorded.
\<close>

theorem C3_prefix_pass_first_qualifying:
  assumes "\<forall>q\<in>set pre. \<not> (startswith lem q \<and> 3 < length (replace lem q [] 1))"
  shows "prefix_loop lem vocab pre v = v
    \<and> (startswith lem p \<and> 3 < length (replace lem p [] 1) \<longrightarrow>
         prefix_loop lem vocab (pre @ p # post) v =
           (if replace lem p [] 1 \<in> vocab
            then v\<lparr>has_affix_val := PyInt 1, affix_val := p,
                   base_is_word_val := PyInt 1, base_val := replace lem p [] 1\<rparr>
            else v\<lparr>has_affix_val := PyInt 1, affix_val := p\<rparr>))"
proof -
  have "prefix_loop lem vocab pre v = v"
    using prefix_loop_skip [OF assms, of vocab "[]" v] by simp
  moreover have "prefix_loop lem vocab (pre @ p # post) v = prefix_loop lem vocab (p # post) v"
    by (rule prefix_loop_skip [OF assms])
  ultimately show ?thesis by (simp add: Let_def)
qed

theorem C3_prefix_pass_witness:
  "startswith ''under'' ''un'' \<and> length (replace ''under'' ''un'' [] 1) \<le> 3
   \<and> startswith ''under'' ''u'' \<and> 3 < length (replace ''under'' ''u'' [] 1)
   \<and> prefix_loop ''under'' {''nder''} ([''un''] @ ''u'' # [''und''])
        \<lparr>has_affix_val = PyInt 0, affix_val = [], base_is_word_val = PyInt 0, base_val = []\<rparr>
      = \<lparr>has_affix_val = PyInt 1, affix_val = ''u'', base_is_word_val = PyInt 1,
         base_val = ''nder''\<rparr>"
  using C3_prefix_pass_first_qualifying [of "[''un'']" "''under''" "{''nder''}"
      "\<lparr>has_affix_val = PyInt 0, affix_val = [], base_is_word_val = PyInt 0, base_val = []\<rparr>"
      "''u''" "[''und'']"]
  by (simp add: startswith_def replace.simps)

text \<open>
  The loop does not stop at the first prefix the lemma starts with: \<^verbatim>\<open>under\<close> starts
  with \<^verbatim>\<open>un\<close>, the stem \<^verbatim>\<open>der\<close> is too short, and the later prefix \<^verbatim>\<open>u\<close> is recorded.
\<close>

theorem C3_counterexample:
  "startswith ''under'' ''un'' \<and> length (replace ''under'' ''un'' [] 1) \<le> 3
   \<and> prefix_loop ''under'' {} [''un'', ''u'']
        \<lparr>has_affix_val = PyInt 0, affix_val = [], base_is_word_val = PyInt 0, base_val = []\<rparr>
      = \<lparr>has_affix_val = PyInt 1, affix_val = ''u'', base_is_word_val = PyInt 0, base_val = []\<rparr>"
  by (simp add: startswith_def replace.simps)

text \<open>Priority of the suffix loop, for a suffix that occurs in the lemma only at its end:
  the result is the commit through that suffix, whatever the prefix set is.\<close>

lemma suffix_priority_only_at_end:
  assumes "\<forall>p\<in>set pre. \<not> (endswith lem p \<and> 2 < length (residual_stem lem p))"
    and "endswith lem s" and "suffix_only_at_end lem s"
    and "2 < length (residual_stem lem s)"
  shows "affix_features lem neg_prefix (pre @ s # post) vocab =
           \<lparr>has_affix_val = PyInt 1, affix_val = s,
            base_is_word_val = (if residual_stem lem s \<in> vocab then PyInt 1 else PyInt 0),
            base_val = (if residual_stem lem s \<in> vocab then residual_stem lem s else [])\<rparr>"
proof -
  from assms(4) have "lem \<noteq> []"
    by (auto simp: residual_stem_def)
  moreover have "suffix_loop lem vocab (pre @ s # post) v = suffix_loop lem vocab (s # post) v" for v
    by (rule suffix_loop_skip_residual [OF assms(1)])
  ultimately show ?thesis
    using assms(2,3,4) by (simp add: affix_features_def Let_def replace_residual_stem)
qed

text \<open>
  Claim C5. The claim says that a lemma ending with a suffix whose residual stem is
  longer than 2 commits through the suffix loop and never reaches the prefix loop. The
  code measures \<^verbatim>\<open>lemma.replace(suffix, "")\<close> instead of the residual stem: the lemma
  \<^verbatim>\<open>unlessless\<close> ends with \<^verbatim>\<open>less\<close>, its residual stem \<^verbatim>\<open>unless\<close> has length 6, the
  code's stem is \<^verbatim>\<open>un\<close>, the suffix loop records nothing, and the prefix loop commits
  with the affix \<^verbatim>\<open>un\<close>.
\<close>

theorem C5_prefix_pass_reached:
  "''less'' \<in> set [''less''] \<and> endswith ''unlessless'' ''less''
   \<and> residual_stem ''unlessless'' ''less'' = ''unless''
   \<and> replace ''unlessless'' ''less'' [] (- 1) = ''un''
   \<and> startswith ''unlessless'' ''un''
   \<and> affix_features ''unlessless'' [''un''] [''less''] {''unless''}
      = \<lparr>has_affix_val = PyInt 1, affix_val = ''un'', base_is_word_val = PyInt 0, base_val = []\<rparr>"
  by (simp add: affix_features_def endswith_def startswith_def replace.simps residual_stem_def)

subsection \<open>The feature table\<close>

text \<open>The four lists of \<^verbatim>\<open>get_affixal_and_base_features\<close> hold, row by row, the four
  values of the row's lemma.\<close>

lemma affix_fold:
  "fold (\<lambda>lem (has_affix, affix, base_is_word, base).
             (let v = affix_features lem neg_prefix neg_suffix vocab
              in (has_affix @ [has_affix_val v], affix @ [affix_val v],
                  base_is_word @ [base_is_word_val v], base @ [base_val v])))
          lems (a, b, c, d)
   = (a @ map (\<lambda>lem. has_affix_val (affix_features lem neg_prefix neg_suffix vocab)) lems,
      b @ map (\<lambda>lem. affix_val (affix_features lem neg_prefix neg_suffix vocab)) lems,
      c @ map (\<lambda>lem. base_is_word_val (affix_features lem neg_prefix neg_suffix vocab)) lems,
      d @ map (\<lambda>lem. base_val (affix_features lem neg_prefix neg_suffix vocab)) lems)"
  by (induction lems arbitrary: a b c d) (simp_all add: Let_def)

lemma get_affixal_and_base_features_map:
  "get_affixal_and_base_features lemmas neg_prefix neg_suffix vocab
   = (map (\<lambda>lem. has_affix_val (affix_features lem neg_prefix neg_suffix vocab)) lemmas,
      map (\<lambda>lem. affix_val (affix_features lem neg_prefix neg_suffix vocab)) lemmas,
      map (\<lambda>lem. base_is_word_val (affix_features lem neg_prefix neg_suffix vocab)) lemmas,
      map (\<lambda>lem. base_val (affix_features lem neg_prefix neg_suffix vocab)) lemmas)"
  by (simp add: get_affixal_and_base_features_def affix_fold)

text \<open>No letter \<^verbatim>\<open>A\<close> to \<^verbatim>\<open>Z\<close> is left in a lowercased string.\<close>

lemma lower_char_not_upper:
  "\<not> (65 \<le> (of_char (lower_char c) :: nat) \<and> (of_char (lower_char c) :: nat) \<le> 90)"
  by (simp add: lower_char_def)

lemma str_lower_no_upper:
  "set (str_lower x) \<inter> set ascii_uppercase = {}"
proof -
  have "c \<notin> set ascii_uppercase" if "c \<in> set (str_lower x)" for c
  proof
    assume "c \<in> set ascii_uppercase"
    then have "65 \<le> (of_char c :: nat) \<and> (of_char c :: nat) \<le> 90"
      by (auto simp: ascii_uppercase_def)
    moreover from that obtain d where "c = lower_char d"
      by (auto simp: str_lower_def)
    ultimately show False
      using lower_char_not_upper [of d] by simp
  qed
  then show ?thesis by blast
qed

text \<open>The table written, row by row.\<close>

lemma write_features_rows:
  assumes "extract_previous_and_next (map (\<lambda>r. lower (in_token r)) input_data)
             = Inr (prev_token, next_token)"
    and "extract_previous_and_next (map (\<lambda>r. lower (in_lemma r)) input_data)
             = Inr (prev_lemma, next_lemma)"
  shows "write_features_with lower input_data neg_prefix neg_suffix vocab =
      Inr (map (\<lambda>i. \<lparr>f_book = in_book (input_data ! i),
                     f_sent_num = in_sent_num (input_data ! i),
                     f_token_num = in_token_num (input_data ! i),
                     f_token = lower (in_token (input_data ! i)),
                     f_lemma = lower (in_lemma (input_data ! i)),
                     f_pos_tag = in_pos_tag (input_data ! i),
                     f_pos_category = pos_category_of (in_pos_tag (input_data ! i)),
                     f_prev_token = prev_token ! i,
                     f_next_token = next_token ! i,
                     f_prev_lemma = prev_lemma ! i,
                     f_next_lemma = next_lemma ! i,
                     f_has_affix = has_affix_val
                       (affix_features (lower (in_lemma (input_data ! i))) neg_prefix neg_suffix vocab),
                     f_affix = affix_val
                       (affix_features (lower (in_lemma (input_data ! i))) neg_prefix neg_suffix vocab),
                     f_base_is_word = base_is_word_val
                       (affix_features (lower (in_lemma (input_data ! i))) neg_prefix neg_suffix vocab),
                     f_base = base_val
                       (affix_features (lower (in_lemma (input_data ! i))) neg_prefix neg_suffix vocab),
                     f_gold_label = in_label (input_data ! i)\<rparr>)
             (filter (\<lambda>i. in_book (input_data ! i) \<noteq> []) [0..<length input_data]))"
proof -
  from assms(1) extract_length [of "map (\<lambda>r. lower (in_token r)) input_data"]
  have lt: "length prev_token = length input_data" "length next_token = length input_data"
    by auto
  from assms(2) extract_length [of "map (\<lambda>r. lower (in_lemma r)) input_data"]
  have ll: "length prev_lemma = length input_data" "length next_lemma = length input_data"
    by auto
  have filt: "filter (\<lambda>i. map in_book input_data ! i \<noteq> []) [0..<length input_data]
      = filter (\<lambda>i. in_book (input_data ! i) \<noteq> []) [0..<length input_data]"
    by (rule filter_cong) simp_all
  show ?thesis
    unfolding write_features_with_def Let_def
    by (simp add: assms lt ll get_affixal_and_base_features_map generate_pos_category_map
        filter_map o_def filt)
qed

lemma length_filter_indices:
  "length (filter (\<lambda>i. P (xs ! i)) [0..<length xs]) = length (filter P xs)"
proof -
  have "length (filter P (map ((!) xs) [0..<length xs]))
          = length (filter (\<lambda>i. P (xs ! i)) [0..<length xs])"
    by (simp add: filter_map o_def)
  then show ?thesis by (simp add: map_nth)
qed

lemma map_filter_upt_cong:
  assumes "\<And>i. i < n \<Longrightarrow> P i = Q i" and "\<And>i. i < n \<Longrightarrow> f i = g i"
  shows "map f (filter P [0..<n]) = map g (filter Q [0..<n])"
proof -
  have "filter P [0..<n] = filter Q [0..<n]"
    by (rule filter_cong) (simp_all add: assms)
  moreover have "map f (filter Q [0..<n]) = map g (filter Q [0..<n])"
    by (rule map_cong) (simp_all add: assms)
  ultimately show ?thesis by simp
qed

lemma write_features_total:
  "\<exists>features. write_features_with lower input_data neg_prefix neg_suffix vocab = Inr features
     \<and> length features = length (filter (\<lambda>r. in_book r \<noteq> []) input_data)"
proof -
  obtain prev_token next_token where t:
    "extract_previous_and_next (map (\<lambda>r. lower (in_token r)) input_data)
       = Inr (prev_token, next_token)"
    using extract_length [of "map (\<lambda>r. lower (in_token r)) input_data"] by auto
  obtain prev_lemma next_lemma where l:
    "extract_previous_and_next (map (\<lambda>r. lower (in_lemma r)) input_data)
       = Inr (prev_lemma, next_lemma)"
    using extract_length [of "map (\<lambda>r. lower (in_lemma r)) input_data"] by auto
  show ?thesis
    by (simp add: write_features_rows [OF t l]
        length_filter_indices [of "\<lambda>r. in_book r \<noteq> []" input_data])
qed

text \<open>The table is the one written, with no lowercasing, for the input whose token and
  lemma columns are already lowercased.\<close>

lemma write_features_lowered_input:
  "write_features_with lower input_data neg_prefix neg_suffix vocab =
   write_features_with (\<lambda>x. x)
     (map (\<lambda>r. r\<lparr>in_token := lower (in_token r), in_lemma := lower (in_lemma r)\<rparr>) input_data)
     neg_prefix neg_suffix vocab"
proof -
  let ?low = "map (\<lambda>r. r\<lparr>in_token := lower (in_token r), in_lemma := lower (in_lemma r)\<rparr>) input_data"
  obtain prev_token next_token where t:
    "extract_previous_and_next (map (\<lambda>r. lower (in_token r)) input_data)
       = Inr (prev_token, next_token)"
    using extract_length [of "map (\<lambda>r. lower (in_token r)) input_data"] by auto
  obtain prev_lemma next_lemma where l:
    "extract_previous_and_next (map (\<lambda>r. lower (in_lemma r)) input_data)
       = Inr (prev_lemma, next_lemma)"
    using extract_length [of "map (\<lambda>r. lower (in_lemma r)) input_data"] by auto
  have t': "extract_previous_and_next (map (\<lambda>r. (\<lambda>x. x) (in_token r)) ?low)
       = Inr (prev_token, next_token)"
    using t by (simp add: o_def)
  have l': "extract_previous_and_next (map (\<lambda>r. (\<lambda>x. x) (in_lemma r)) ?low)
       = Inr (prev_lemma, next_lemma)"
    using l by (simp add: o_def)
  show ?thesis
    unfolding write_features_rows [OF t l] write_features_rows [OF t' l'] length_map sum.inject
    by (rule map_filter_upt_cong) simp_all
qed

text \<open>
  Claim C6. The builder writes a table for every input table, and dropping the blank
  rows keeps the count of the others: with \<open>N\<close> rows whose book field is empty the
  output has exactly \<open>N\<close> rows fewer than the input, and with no such row it has as many
  rows as the input.
\<close>

theorem C6_row_count:
  "\<exists>features. write_features input_data neg_prefix neg_suffix vocab = Inr features
     \<and> length features + length (filter (\<lambda>r. in_book r = []) input_data) = length input_data
     \<and> (filter (\<lambda>r. in_book r = []) input_data = [] \<longrightarrow> length features = length input_data)"
proof -
  obtain features where f: "write_features input_data neg_prefix neg_suffix vocab = Inr features"
      "length features = length (filter (\<lambda>r. in_book r \<noteq> []) input_data)"
    using write_features_total [of str_lower input_data neg_prefix neg_suffix vocab]
    unfolding write_features_def by blast
  have "length (filter (\<lambda>r. in_book r \<noteq> []) input_data)
          + length (filter (\<lambda>r. \<not> in_book r \<noteq> []) input_data) = length input_data"
    by (rule sum_length_filter_compl)
  with f show ?thesis by auto
qed

theorem C6_row_count_witness:
  "(\<exists>features.
      write_features
        [\<lparr>in_book = ''b'', in_sent_num = ''0'', in_token_num = ''0'', in_token = ''Go'',
          in_lemma = ''go'', in_pos_tag = ''VB'', in_label = ''O''\<rparr>,
         \<lparr>in_book = '''', in_sent_num = '''', in_token_num = '''', in_token = '''',
          in_lemma = '''', in_pos_tag = '''', in_label = ''''\<rparr>,
         \<lparr>in_book = ''b'', in_sent_num = ''1'', in_token_num = ''0'', in_token = ''No'',
          in_lemma = ''no'', in_pos_tag = ''DT'', in_label = ''B-NEG''\<rparr>]
        [''un''] [''less''] {} = Inr features
      \<and> length features = 2)
   \<and> (\<exists>features.
      write_features
        [\<lparr>in_book = ''b'', in_sent_num = ''0'', in_token_num = ''0'', in_token = ''Go'',
          in_lemma = ''go'', in_pos_tag = ''VB'', in_label = ''O''\<rparr>]
        [''un''] [''less''] {} = Inr features
      \<and> length features = 1)"
  using
    C6_row_count [of
        "[\<lparr>in_book = ''b'', in_sent_num = ''0'', in_token_num = ''0'', in_token = ''Go'',
          in_lemma = ''go'', in_pos_tag = ''VB'', in_label = ''O''\<rparr>,
         \<lparr>in_book = '''', in_sent_num = '''', in_token_num = '''', in_token = '''',
          in_lemma = '''', in_pos_tag = '''', in_label = ''''\<rparr>,
         \<lparr>in_book = ''b'', in_sent_num = ''1'', in_token_num = ''0'', in_token = ''No'',
          in_lemma = ''no'', in_pos_tag = ''DT'', in_label = ''B-NEG''\<rparr>]"
        "[''un'']" "[''less'']" "{}"]
    C6_row_count [of
        "[\<lparr>in_book = ''b'', in_sent_num = ''0'', in_token_num = ''0'', in_token = ''Go'',
          in_lemma = ''go'', in_pos_tag = ''VB'', in_label = ''O''\<rparr>]"
        "[''un'']" "[''less'']" "{}"]
  by auto

text \<open>
  Claim C10. The token and lemma columns are lowercased before any feature is
  extracted. In the table written, the token and lemma of a row are the lowercased input
  values; the previous and next tokens and lemmas are the neighbours extracted from the
  lowercased columns; the four affix values are those of the lowercased lemma; book,
  sentence number, token number, POS tag and gold label are the input values (and the
  POS category is that of the input tag). So the table is the one that is written, with
  no lowercasing at all, for the input with its token and lemma columns lowercased. All
  this holds whatever function stands for \<^verbatim>\<open>x.lower()\<close>; with \<^const>\<open>str_lower\<close> no token
  and no lemma of the table written has a letter \<^verbatim>\<open>A\<close> to \<^verbatim>\<open>Z\<close>, an accented capital
  is lowercased too, and in the example the affix \<^verbatim>\<open>un\<close> of the lemma \<^verbatim>\<open>UNHAPPY\<close> is
  found, with the base \<^verbatim>\<open>happy\<close>, only because the lemma was lowercased.
\<close>

theorem C10_lowercased:
  "(\<exists>prev_token next_token prev_lemma next_lemma.
      extract_previous_and_next (map (\<lambda>r. lower (in_token r)) input_data)
        = Inr (prev_token, next_token)
      \<and> extract_previous_and_next (map (\<lambda>r. lower (in_lemma r)) input_data)
        = Inr (prev_lemma, next_lemma)
      \<and> write_features_with lower input_data neg_prefix neg_suffix vocab =
         Inr (map (\<lambda>i. \<lparr>f_book = in_book (input_data ! i),
                     f_sent_num = in_sent_num (input_data ! i),
                     f_token_num = in_token_num (input_data ! i),
                     f_token = lower (in_token (input_data ! i)),
                     f_lemma = lower (in_lemma (input_data ! i)),
                     f_pos_tag = in_pos_tag (input_data ! i),
                     f_pos_category = pos_category_of (in_pos_tag (input_data ! i)),
                     f_prev_token = prev_token ! i,
                     f_next_token = next_token ! i,
                     f_prev_lemma = prev_lemma ! i,
                     f_next_lemma = next_lemma ! i,
                     f_has_affix = has_affix_val
                       (affix_features (lower (in_lemma (input_data ! i))) neg_prefix neg_suffix vocab),
                     f_affix = affix_val
                       (affix_features (lower (in_lemma (input_data ! i))) neg_prefix neg_suffix vocab),
                     f_base_is_word = base_is_word_val
                       (affix_features (lower (in_lemma (input_data ! i))) neg_prefix neg_suffix vocab),
                     f_base = base_val
                       (affix_features (lower (in_lemma (input_data ! i))) neg_prefix neg_suffix vocab),
                     f_gold_label = in_label (input_data ! i)\<rparr>)
              (filter (\<lambda>i. in_book (input_data ! i) \<noteq> []) [0..<length input_data])))
   \<and> write_features_with lower input_data neg_prefix neg_suffix vocab =
       write_features_with (\<lambda>x. x)
         (map (\<lambda>r. r\<lparr>in_token := lower (in_token r), in_lemma := lower (in_lemma r)\<rparr>) input_data)
         neg_prefix neg_suffix vocab
   \<and> write_features input_data neg_prefix neg_suffix vocab
       = write_features_with str_lower input_data neg_prefix neg_suffix vocab
   \<and> (\<exists>features. write_features input_data neg_prefix neg_suffix vocab = Inr features
        \<and> list_all (\<lambda>r. set (f_token r) \<inter> set ascii_uppercase = {}
                        \<and> set (f_lemma r) \<inter> set ascii_uppercase = {}) features)
   \<and> str_lower ''Not UNHAPPY'' = ''not unhappy''
   \<and> str_lower [CHR 0xC9, CHR ''C'', CHR ''O'', CHR ''L'', CHR ''E'']
       = [CHR 0xE9, CHR ''c'', CHR ''o'', CHR ''l'', CHR ''e'']
   \<and> write_features
        [\<lparr>in_book = ''b'', in_sent_num = ''0'', in_token_num = ''0'', in_token = ''Unhappy'',
          in_lemma = ''UNHAPPY'', in_pos_tag = ''JJ'', in_label = ''B-NEG''\<rparr>,
         \<lparr>in_book = '''', in_sent_num = '''', in_token_num = '''', in_token = '''',
          in_lemma = '''', in_pos_tag = '''', in_label = ''''\<rparr>,
         \<lparr>in_book = ''b'', in_sent_num = ''1'', in_token_num = ''0'', in_token = ''Dogs'',
          in_lemma = ''Dog'', in_pos_tag = ''NNS'', in_label = ''O''\<rparr>]
        [''un''] [''less''] {''happy''}
      = Inr [\<lparr>f_book = ''b'', f_sent_num = ''0'', f_token_num = ''0'', f_token = ''unhappy'',
              f_lemma = ''unhappy'', f_pos_tag = ''JJ'', f_pos_category = ''ADJ'',
              f_prev_token = ''bos'', f_next_token = ''eos'', f_prev_lemma = ''bos'',
              f_next_lemma = ''eos'', f_has_affix = PyInt 1, f_affix = ''un'',
              f_base_is_word = PyInt 1, f_base = ''happy'', f_gold_label = ''B-NEG''\<rparr>,
             \<lparr>f_book = ''b'', f_sent_num = ''1'', f_token_num = ''0'', f_token = ''dogs'',
              f_lemma = ''dog'', f_pos_tag = ''NNS'', f_pos_category = ''NN'',
              f_prev_token = ''bos'', f_next_token = ''eos'', f_prev_lemma = ''bos'',
              f_next_lemma = ''eos'', f_has_affix = PyInt 0, f_affix = '''',
              f_base_is_word = PyInt 0, f_base = '''', f_gold_label = ''O''\<rparr>]"
proof -
  obtain prev_token next_token where t:
    "extract_previous_and_next (map (\<lambda>r. lower (in_token r)) input_data)
       = Inr (prev_token, next_token)"
    using extract_length [of "map (\<lambda>r. lower (in_token r)) input_data"] by auto
  obtain prev_lemma next_lemma where l:
    "extract_previous_and_next (map (\<lambda>r. lower (in_lemma r)) input_data)
       = Inr (prev_lemma, next_lemma)"
    using extract_length [of "map (\<lambda>r. lower (in_lemma r)) input_data"] by auto
  note rows = write_features_rows [OF t l, of neg_prefix neg_suffix vocab]
  obtain pt nt where t': "extract_previous_and_next (map (\<lambda>r. str_lower (in_token r)) input_data)
       = Inr (pt, nt)"
    using extract_length [of "map (\<lambda>r. str_lower (in_token r)) input_data"] by auto
  obtain pl nl where l': "extract_previous_and_next (map (\<lambda>r. str_lower (in_lemma r)) input_data)
       = Inr (pl, nl)"
    using extract_length [of "map (\<lambda>r. str_lower (in_lemma r)) input_data"] by auto
  have no_upper: "\<exists>features. write_features input_data neg_prefix neg_suffix vocab = Inr features
        \<and> list_all (\<lambda>r. set (f_token r) \<inter> set ascii_uppercase = {}
                        \<and> set (f_lemma r) \<inter> set ascii_uppercase = {}) features"
    unfolding write_features_def write_features_rows [OF t' l']
    by (simp add: list_all_iff str_lower_no_upper)
  have ex1: "str_lower ''Not UNHAPPY'' = ''not unhappy''"
    by code_simp
  have ex2: "str_lower [CHR 0xC9, CHR ''C'', CHR ''O'', CHR ''L'', CHR ''E'']
       = [CHR 0xE9, CHR ''c'', CHR ''o'', CHR ''l'', CHR ''e'']"
    by code_simp
  have ex3: "write_features
        [\<lparr>in_book = ''b'', in_sent_num = ''0'', in_token_num = ''0'', in_token = ''Unhappy'',
          in_lemma = ''UNHAPPY'', in_pos_tag = ''JJ'', in_label = ''B-NEG''\<rparr>,
         \<lparr>in_book = '''', in_sent_num = '''', in_token_num = '''', in_token = '''',
          in_lemma = '''', in_pos_tag = '''', in_label = ''''\<rparr>,
         \<lparr>in_book = ''b'', in_sent_num = ''1'', in_token_num = ''0'', in_token = ''Dogs'',
          in_lemma = ''Dog'', in_pos_tag = ''NNS'', in_label = ''O''\<rparr>]
        [''un''] [''less''] {''happy''}
      = Inr [\<lparr>f_book = ''b'', f_sent_num = ''0'', f_token_num = ''0'', f_token = ''unhappy'',
              f_lemma = ''unhappy'', f_pos_tag = ''JJ'', f_pos_category = ''ADJ'',
              f_prev_token = ''bos'', f_next_token = ''eos'', f_prev_lemma = ''bos'',
              f_next_lemma = ''eos'', f_has_affix = PyInt 1, f_affix = ''un'',
              f_base_is_word = PyInt 1, f_base = ''happy'', f_gold_label = ''B-NEG''\<rparr>,
             \<lparr>f_book = ''b'', f_sent_num = ''1'', f_token_num = ''0'', f_token = ''dogs'',
              f_lemma = ''dog'', f_pos_tag = ''NNS'', f_pos_category = ''NN'',
              f_prev_token = ''bos'', f_next_token = ''eos'', f_prev_lemma = ''bos'',
              f_next_lemma = ''eos'', f_has_affix = PyInt 0, f_affix = '''',
              f_base_is_word = PyInt 0, f_base = '''', f_gold_label = ''O''\<rparr>]"
    by code_simp
  from t l rows write_features_lowered_input [of lower input_data neg_prefix neg_suffix vocab]
    write_features_def [of input_data neg_prefix neg_suffix vocab] no_upper ex1 ex2 ex3
  show ?thesis
    by blast
qed

end
